theory Spec2Isabelle
  imports Complex_Main "HOL-Library.Word"
begin

section \<open>The loop-back serial port of pySerial (\<open>serial/urlhandler/protocol_loop.py\<close>)\<close>

text \<open>
  The class \<open>Serial\<close> simulates a serial port in software: what is written is put, byte by
  byte, into a bounded \<open>queue.Queue\<close>, and \<open>read\<close> takes it out again. The embedding is a
  state-passing one. The fields of the object are the record \<open>Serial\<close>; what a method does
  outside the object (calls of \<open>time.sleep\<close>, timed waits inside the queue, calls on the
  \<open>logging\<close> module, readings of \<open>time.time()\<close>) is kept in a second record, \<open>world\<close>. A
  method takes both and returns its outcome with the two records updated. An outcome is a
  returned value, a raised exception, or \<open>Blocked\<close>: the calling thread waits on the queue and,
  no other thread being there to wake it, never returns.
\<close>

subsection \<open>Values, exceptions and outcomes\<close>

type_synonym byte = "8 word"

text \<open>
  A Python number that is a duration or a time, an \<open>int\<close> or a \<open>float\<close>, is embedded as the
  rational number that is its value.
\<close>

type_synonym seconds = rat

text \<open>
  The text of an exception. The format strings of the source are kept as constructors, their
  \<open>%r\<close> and \<open>%s\<close> arguments as the constructors' arguments.
\<close>

datatype message =
    Port_is_already_open
  | Port_must_be_configured
  | Not_starting_with_loop string
  | Unknown_option string
  | Expected_loop_url message
  | Invalid_baudrate int
  | Sleep_length_negative
  | Timeout_negative

text \<open>
  \<open>portNotOpenError\<close> and \<open>writeTimeoutError\<close> are the two exception objects that
  \<open>serial.serialutil\<close> exports under these names; \<open>Empty\<close> and \<open>Full\<close> are the exceptions of
  the \<open>queue\<close> module; the others are Python's built-in ones.
\<close>

datatype exn =
    SerialException message
  | portNotOpenError
  | writeTimeoutError
  | ValueError message
  | KeyError string
  | IndexError
  | TypeError
  | ZeroDivisionError
  | AttributeError
  | Empty
  | Full

datatype 'a outcome = Return 'a | Raise exn | Blocked

subsection \<open>Floating-point numbers\<close>

text \<open>
  A Python \<open>float\<close> is an IEEE 754 double. The result of an operation on floats, and of the
  conversion of an \<open>int\<close> to a \<open>float\<close>, is the exact result rounded to 53 significant bits,
  to the nearest such number and, of two that are equally near, to the one with an even last
  bit. \<open>ilog2 x\<close> is the exponent of a positive \<open>x\<close>, the \<open>e\<close> with \<open>2^e \<le> x < 2^(e+1)\<close>;
  \<open>to_double x\<close> is \<open>x\<close> rounded. The exponent is not bounded here. That is the double
  wherever the value lies between \<open>2^-1022\<close> and \<open>2^1024\<close>, as the values of
  \<open>time_used_to_send\<close> below do when the baud rate is one that \<open>_reconfigurePort\<close> lets
  through (a bytes object has fewer than \<open>2^63\<close> elements). The \<open>OverflowError\<close> that Python
  raises when it converts an integer of about \<open>2^1024\<close> or more to a \<open>float\<close> is not part of
  the model.
\<close>

function ilog2 :: "rat \<Rightarrow> int" where
  "ilog2 x =
     (if 2 \<le> x then ilog2 (x / 2) + 1
      else if 0 < x \<and> x < 1 then ilog2 (x * 2) - 1
      else 0)"
  by pat_completeness auto
termination
proof (relation "measure (\<lambda>x. if 1 \<le> x then nat \<lfloor>x\<rfloor> else nat \<lfloor>1 / x\<rfloor> + 1)")
  have half: "\<lfloor>y / 2\<rfloor> < \<lfloor>y\<rfloor>" if "2 \<le> y" for y :: rat
  proof -
    have "of_int \<lfloor>y / 2\<rfloor> \<le> y / 2" by (rule of_int_floor_le)
    moreover have "y < of_int \<lfloor>y\<rfloor> + 1" by linarith
    ultimately have "(of_int \<lfloor>y / 2\<rfloor> :: rat) < of_int \<lfloor>y\<rfloor>" using that by linarith
    then show ?thesis by simp
  qed
  show "wf (measure (\<lambda>x :: rat. if 1 \<le> x then nat \<lfloor>x\<rfloor> else nat \<lfloor>1 / x\<rfloor> + 1))"
    by simp
  show "(x / 2, x) \<in> measure (\<lambda>x. if 1 \<le> x then nat \<lfloor>x\<rfloor> else nat \<lfloor>1 / x\<rfloor> + 1)"
    if "2 \<le> x" for x :: rat
  proof -
    from that have "0 \<le> \<lfloor>x / 2\<rfloor>" by simp
    with half [OF that] that show ?thesis by simp
  qed
  show "(x * 2, x) \<in> measure (\<lambda>x. if 1 \<le> x then nat \<lfloor>x\<rfloor> else nat \<lfloor>1 / x\<rfloor> + 1)"
    if "\<not> 2 \<le> x" and "0 < x \<and> x < 1" for x :: rat
  proof (cases "1 \<le> x * 2")
    case True
    from that have "x * 2 < 2" by simp
    with True have "\<lfloor>x * 2\<rfloor> = 1" by linarith
    moreover from that have "1 \<le> 1 / x" by (simp add: field_simps)
    then have "1 \<le> \<lfloor>1 / x\<rfloor>" by simp
    ultimately show ?thesis using True that by simp
  next
    case False
    with that have "2 \<le> 1 / x" by (simp add: field_simps)
    from half [OF this] have "\<lfloor>1 / (x * 2)\<rfloor> < \<lfloor>1 / x\<rfloor>" by (simp add: field_simps)
    moreover from that have "0 \<le> \<lfloor>1 / (x * 2)\<rfloor>" by simp
    ultimately show ?thesis using False that by simp
  qed
qed

declare ilog2.simps [simp del]

definition round_half_even :: "rat \<Rightarrow> int" where
  "round_half_even x =
     (let f = \<lfloor>x\<rfloor>; r = x - of_int f
      in if r < 1 / 2 then f else if 1 / 2 < r then f + 1 else if even f then f else f + 1)"

definition to_double :: "rat \<Rightarrow> rat" where
  "to_double x =
     (if x = 0 then 0
      else of_int (round_half_even (x / 2 powi (ilog2 \<bar>x\<bar> - 52))) * 2 powi (ilog2 \<bar>x\<bar> - 52))"

subsection \<open>The world outside the object\<close>

datatype effect =
    Sleep seconds
  | Wait seconds
  | BasicConfig
  | SetLevel nat
  | LogDebug string
  | LogInfo string

text \<open>
  \<open>trace\<close> lists the effects in the order they happened. \<open>clock\<close> is what the successive calls
  of \<open>time.time()\<close> return, \<open>ticks\<close> how many calls there have been.
\<close>

record world =
  trace :: "effect list"
  clock :: "nat \<Rightarrow> seconds"
  ticks :: nat

definition emit :: "effect \<Rightarrow> world \<Rightarrow> world" where
  "emit e w = w\<lparr>trace := trace w @ [e]\<rparr>"

definition time_time :: "world \<Rightarrow> seconds \<times> world" where
  "time_time w = (clock w (ticks w), w\<lparr>ticks := Suc (ticks w)\<rparr>)"

text \<open>\<open>time.sleep\<close> refuses a negative length.\<close>

definition time_sleep :: "seconds \<Rightarrow> world \<Rightarrow> unit outcome \<times> world" where
  "time_sleep d w =
     (if d < 0 then (Raise (ValueError Sleep_length_negative), w)
      else (Return (), emit (Sleep d) w))"

subsection \<open>The bounded queue\<close>

text \<open>
  \<open>queue.Queue(maxsize)\<close> of the standard library, as one thread sees it. An element is
  either a \<open>bytes\<close> object of length one (what \<open>iterbytes\<close> yields), embedded as \<open>Some b\<close>, or
  Python's \<open>None\<close>. A \<open>maxsize\<close> that is not positive means no bound. A timed wait that runs
  to its end is recorded in the trace.
\<close>

record Queue =
  maxsize :: int
  items :: "byte option list"

definition Queue_new :: "int \<Rightarrow> Queue" where
  "Queue_new n = \<lparr>maxsize = n, items = []\<rparr>"

definition qsize :: "Queue \<Rightarrow> nat" where
  "qsize q = length (items q)"

definition wait :: "seconds \<Rightarrow> world \<Rightarrow> world" where
  "wait d w = (if 0 < d then emit (Wait d) w else w)"

definition queue_put ::
  "byte option \<Rightarrow> seconds option \<Rightarrow> Queue \<Rightarrow> world \<Rightarrow> unit outcome \<times> Queue \<times> world" where
  "queue_put x tmo q w =
     (let full = (0 < maxsize q \<and> maxsize q \<le> int (qsize q));
          q' = q\<lparr>items := items q @ [x]\<rparr>
      in case tmo of
           None \<Rightarrow> if full then (Blocked, q, w) else (Return (), q', w)
         | Some d \<Rightarrow>
             if 0 < maxsize q \<and> d < 0 then (Raise (ValueError Timeout_negative), q, w)
             else if full then (Raise Full, q, wait d w)
             else (Return (), q', w))"

definition queue_get ::
  "seconds option \<Rightarrow> Queue \<Rightarrow> world \<Rightarrow> byte option outcome \<times> Queue \<times> world" where
  "queue_get tmo q w =
     (case tmo of
        None \<Rightarrow>
          (case items q of
             [] \<Rightarrow> (Blocked, q, w)
           | x # xs \<Rightarrow> (Return x, q\<lparr>items := xs\<rparr>, w))
      | Some d \<Rightarrow>
          if d < 0 then (Raise (ValueError Timeout_negative), q, w)
          else (case items q of
                  [] \<Rightarrow> (Raise Empty, q, wait d w)
                | x # xs \<Rightarrow> (Return x, q\<lparr>items := xs\<rparr>, w)))"

definition get_nowait :: "Queue \<Rightarrow> byte option outcome \<times> Queue" where
  "get_nowait q =
     (case items q of
        [] \<Rightarrow> (Raise Empty, q)
      | x # xs \<Rightarrow> (Return x, q\<lparr>items := xs\<rparr>))"

subsection \<open>The object\<close>

text \<open>
  The fields of a \<open>Serial\<close> object that the module reads or writes; the leading underscore of
  \<open>_isOpen\<close>, \<open>_port\<close>, \<open>_baudrate\<close>, \<open>_timeout\<close>, \<open>_writeTimeout\<close>, \<open>_rts_state\<close>,
  \<open>_dtr_state\<close>, \<open>_break_state\<close>, \<open>_dsrdtr\<close> and \<open>_rtscts\<close> is dropped. \<open>logger\<close> holds
  the name of the logger. The attributes \<open>logger\<close> and \<open>queue\<close> do not exist on a new object:
  the first two assignments of \<open>open()\<close> make them, both at once, and nothing takes them away
  again. So an object has both or neither, and \<open>queue = None\<close> stands for an object that has
  neither: one on which \<open>open()\<close> was never called, where reading \<open>self.logger\<close> or
  \<open>self.queue\<close> raises \<open>AttributeError\<close>. The baud rate is an integer, so the \<open>isinstance\<close> test of
  \<open>_reconfigurePort\<close> is decided by the type.
\<close>

record Serial =
  buffer_size :: int
  isOpen :: bool
  port :: "string option"
  baudrate :: int
  timeout :: "seconds option"
  writeTimeout :: "seconds option"
  rts_state :: bool
  dtr_state :: bool
  break_state :: bool
  dsrdtr :: bool
  rtscts :: bool
  logger :: "string option"
  queue :: "Queue option"

subsection \<open>Diagnostics\<close>

definition repr_bool :: "bool \<Rightarrow> string" where
  "repr_bool b = (if b then ''True'' else ''False'')"

fun str_nat :: "nat \<Rightarrow> string" where
  "str_nat n =
     (if n < 10 then [char_of (48 + n)]
      else str_nat (n div 10) @ [char_of (48 + n mod 10)])"

declare str_nat.simps [simp del]

text \<open>\<open>if self.logger: self.logger.info(m)\<close>, and the same for \<open>debug\<close>.\<close>

definition logger_info :: "string \<Rightarrow> Serial \<Rightarrow> world \<Rightarrow> world" where
  "logger_info m s w = (case logger s of None \<Rightarrow> w | Some _ \<Rightarrow> emit (LogInfo m) w)"

definition logger_debug :: "string \<Rightarrow> Serial \<Rightarrow> world \<Rightarrow> world" where
  "logger_debug m s w = (case logger s of None \<Rightarrow> w | Some _ \<Rightarrow> emit (LogDebug m) w)"

definition update_break_state :: "Serial \<Rightarrow> world \<Rightarrow> world" where
  "update_break_state s w =
     logger_info (''setBreak('' @ repr_bool (break_state s) @ '')'') s w"

definition update_rts_state :: "Serial \<Rightarrow> world \<Rightarrow> world" where
  "update_rts_state s w =
     logger_info (''setRTS('' @ repr_bool (rts_state s) @ '') -> state of CTS'') s w"

definition update_dtr_state :: "Serial \<Rightarrow> world \<Rightarrow> world" where
  "update_dtr_state s w =
     logger_info (''setDTR('' @ repr_bool (dtr_state s) @ '') -> state of DSR'') s w"

subsection \<open>The status lines\<close>

definition cts :: "Serial \<Rightarrow> world \<Rightarrow> bool outcome \<times> Serial \<times> world" where
  "cts s w =
     (if \<not> isOpen s then (Raise portNotOpenError, s, w)
      else (Return (rts_state s), s,
            logger_info (''getCTS() -> state of RTS ('' @ repr_bool (rts_state s) @ '')'') s w))"

text \<open>
  \<open>dsr\<close> reads \<open>self.logger\<close> without a test of \<open>_isOpen\<close> before it, so it is the one method
  that can meet an object without that attribute.
\<close>

definition dsr :: "Serial \<Rightarrow> world \<Rightarrow> bool outcome \<times> Serial \<times> world" where
  "dsr s w =
     (case queue s of
        None \<Rightarrow> (Raise AttributeError, s, w)
      | Some q \<Rightarrow>
          (Return (dtr_state s), s,
           logger_info (''getDSR() -> state of DTR ('' @ repr_bool (dtr_state s) @ '')'') s w))"

definition ri :: "Serial \<Rightarrow> world \<Rightarrow> bool outcome \<times> Serial \<times> world" where
  "ri s w =
     (if \<not> isOpen s then (Raise portNotOpenError, s, w)
      else (Return False, s, logger_info ''returning dummy for getRI()'' s w))"

definition cd :: "Serial \<Rightarrow> world \<Rightarrow> bool outcome \<times> Serial \<times> world" where
  "cd s w =
     (if \<not> isOpen s then (Raise portNotOpenError, s, w)
      else (Return True, s, logger_info ''returning dummy for getCD()'' s w))"

subsection \<open>Closing\<close>

text \<open>
  The class body defines \<open>close\<close> twice. A class body is executed from top to bottom and the
  second \<open>def\<close> rebinds the name, so the method that \<open>Serial.close\<close> names is the second one
  (the one with the docstring \<open>Close port\<close>); the first one, which puts \<open>None\<close> into the queue,
  is never called.
\<close>

definition close :: "Serial \<Rightarrow> world \<Rightarrow> unit outcome \<times> Serial \<times> world" where
  "close s w =
     (if isOpen s then
        (case time_sleep (3 / 10) w of (r, w') \<Rightarrow> (r, s\<lparr>isOpen := False\<rparr>, w'))
      else (Return (), s, w))"

subsection \<open>Reading and writing\<close>

definition in_waiting :: "Serial \<Rightarrow> world \<Rightarrow> nat outcome \<times> Serial \<times> world" where
  "in_waiting s w =
     (if \<not> isOpen s then (Raise portNotOpenError, s, w)
      else (case queue s of
              None \<Rightarrow> (Raise AttributeError, s, w)
            | Some q \<Rightarrow>
                (Return (qsize q), s,
                 logger_debug (''inWaiting() -> '' @ str_nat (qsize q)) s w)))"

text \<open>
  The loop of \<open>read\<close>. \<open>deadline\<close> is the local variable \<open>timeout\<close> of the source, \<open>sz\<close> its
  \<open>size\<close>, \<open>data\<close> the bytes collected so far. \<open>data += x\<close> raises \<open>TypeError\<close> when \<open>x\<close> is \<open>None\<close>, and only
  \<open>queue.Empty\<close> is caught. The test \<open>if timeout and time.time() > timeout\<close> reads the clock
  only when \<open>timeout\<close> is neither \<open>None\<close> nor zero.
\<close>

function read_loop ::
  "seconds option \<Rightarrow> int \<Rightarrow> byte list \<Rightarrow> Serial \<Rightarrow> world \<Rightarrow> byte list outcome \<times> Serial \<times> world" where
  "read_loop deadline sz data s w =
     (if 0 < sz \<and> isOpen s then
        (case queue s of
           None \<Rightarrow> (Raise AttributeError, s, w)
         | Some q \<Rightarrow>
             (case queue_get (timeout s) q w of
                (Blocked, q', w') \<Rightarrow> (Blocked, s\<lparr>queue := Some q'\<rparr>, w')
              | (Raise e, q', w') \<Rightarrow>
                  if e = Empty then (Return data, s\<lparr>queue := Some q'\<rparr>, w')
                  else (Raise e, s\<lparr>queue := Some q'\<rparr>, w')
              | (Return None, q', w') \<Rightarrow> (Raise TypeError, s\<lparr>queue := Some q'\<rparr>, w')
              | (Return (Some b), q', w') \<Rightarrow>
                  (case deadline of
                     None \<Rightarrow> read_loop deadline (sz - 1) (data @ [b]) (s\<lparr>queue := Some q'\<rparr>) w'
                   | Some d \<Rightarrow>
                       if d = 0 then
                         read_loop deadline (sz - 1) (data @ [b]) (s\<lparr>queue := Some q'\<rparr>) w'
                       else if d < fst (time_time w') then
                         (Return (data @ [b]), s\<lparr>queue := Some q'\<rparr>, snd (time_time w'))
                       else
                         read_loop deadline (sz - 1) (data @ [b]) (s\<lparr>queue := Some q'\<rparr>)
                           (snd (time_time w')))))
      else (Return data, s, w))"
  by pat_completeness auto
termination
  by (relation "measure (\<lambda>(deadline, sz, data, s, w). nat sz)") auto

declare read_loop.simps [simp del]

text \<open>
  \<open>timeout = time.time() + self._timeout\<close> is a sum of floats: the timeout is converted to a
  \<open>float\<close> and the sum is rounded.
\<close>

definition read :: "int \<Rightarrow> Serial \<Rightarrow> world \<Rightarrow> byte list outcome \<times> Serial \<times> world" where
  "read sz s w =
     (if \<not> isOpen s then (Raise portNotOpenError, s, w)
      else (case timeout s of
              None \<Rightarrow> read_loop None sz [] s w
            | Some d \<Rightarrow>
                read_loop (Some (to_double (fst (time_time w) + to_double d))) sz [] s
                  (snd (time_time w))))"

text \<open>
  The \<open>for\<close> loop of \<open>write\<close>: each byte is put with the write timeout; an exception of \<open>put\<close>
  leaves the loop with the bytes before it in the queue.
\<close>

fun write_loop :: "byte list \<Rightarrow> Serial \<Rightarrow> world \<Rightarrow> unit outcome \<times> Serial \<times> world" where
  "write_loop [] s w = (Return (), s, w)"
| "write_loop (b # bs) s w =
     (case queue s of
        None \<Rightarrow> (Raise AttributeError, s, w)
      | Some q \<Rightarrow>
          (case queue_put (Some b) (writeTimeout s) q w of
             (Return u, q', w') \<Rightarrow> write_loop bs (s\<lparr>queue := Some q'\<rparr>) w'
           | (Raise e, q', w') \<Rightarrow> (Raise e, s\<lparr>queue := Some q'\<rparr>, w')
           | (Blocked, q', w') \<Rightarrow> (Blocked, s\<lparr>queue := Some q'\<rparr>, w')))"

text \<open>
  \<open>time_used_to_send\<close> is \<open>10.0*len(data) / self._baudrate\<close>, computed as Python does: the
  length is converted to a \<open>float\<close>, the product is rounded, the baud rate is converted to a
  \<open>float\<close>, the quotient is rounded. The comparison with the write timeout, of a \<open>float\<close> with
  a \<open>float\<close> or an \<open>int\<close>, is exact. Python raises \<open>ZeroDivisionError\<close> for a baud rate of
  zero. The argument is a \<open>bytes\<close> object, on which
  \<open>to_bytes\<close> is the identity.
\<close>

definition time_used_to_send :: "byte list \<Rightarrow> Serial \<Rightarrow> seconds" where
  "time_used_to_send data s =
     to_double (to_double (10 * to_double (of_nat (length data))) / to_double (of_int (baudrate s)))"

definition "write" :: "byte list \<Rightarrow> Serial \<Rightarrow> world \<Rightarrow> nat outcome \<times> Serial \<times> world" where
  "write data s w =
     (if \<not> isOpen s then (Raise portNotOpenError, s, w)
      else if baudrate s = 0 then (Raise ZeroDivisionError, s, w)
      else
        (case (case writeTimeout s of
                 None \<Rightarrow> None
               | Some d \<Rightarrow> if d < time_used_to_send data s then Some d else None) of
           Some d \<Rightarrow>
             (case time_sleep d w of
                (Return u, w') \<Rightarrow> (Raise writeTimeoutError, s, w')
              | (Raise e, w') \<Rightarrow> (Raise e, s, w')
              | (Blocked, w') \<Rightarrow> (Blocked, s, w'))
         | None \<Rightarrow>
             (case write_loop data s w of
                (Return u, s', w') \<Rightarrow> (Return (length data), s', w')
              | (Raise e, s', w') \<Rightarrow> (Raise e, s', w')
              | (Blocked, s', w') \<Rightarrow> (Blocked, s', w'))))"

subsection \<open>Clearing the buffers\<close>

text \<open>\<open>while self.queue.qsize(): self.queue.get_nowait()\<close>, inside \<open>try ... except queue.Empty: pass\<close>.\<close>

function drain :: "Queue \<Rightarrow> Queue" where
  "drain q =
     (if qsize q \<noteq> 0 then
        (case get_nowait q of
           (Raise e, q') \<Rightarrow> q'
         | (r, q') \<Rightarrow> drain q')
      else q)"
  by pat_completeness auto
termination
  by (relation "measure qsize")
     (auto simp: get_nowait_def qsize_def split: list.splits)

declare drain.simps [simp del]

definition reset_input_buffer :: "Serial \<Rightarrow> world \<Rightarrow> unit outcome \<times> Serial \<times> world" where
  "reset_input_buffer s w =
     (if \<not> isOpen s then (Raise portNotOpenError, s, w)
      else (case queue s of
              None \<Rightarrow> (Raise AttributeError, s, logger_info ''flushInput()'' s w)
            | Some q \<Rightarrow>
                (Return (), s\<lparr>queue := Some (drain q)\<rparr>, logger_info ''flushInput()'' s w)))"

definition reset_output_buffer :: "Serial \<Rightarrow> world \<Rightarrow> unit outcome \<times> Serial \<times> world" where
  "reset_output_buffer s w =
     (if \<not> isOpen s then (Raise portNotOpenError, s, w)
      else (case queue s of
              None \<Rightarrow> (Raise AttributeError, s, logger_info ''flushOutput()'' s w)
            | Some q \<Rightarrow>
                (Return (), s\<lparr>queue := Some (drain q)\<rparr>, logger_info ''flushOutput()'' s w)))"

subsection \<open>Opening\<close>

text \<open>The dictionary \<open>LOGGER_LEVELS\<close>, with the values of the constants of \<open>logging\<close>.\<close>

definition LOGGER_LEVELS :: "string \<rightharpoonup> nat" where
  "LOGGER_LEVELS =
     map_of [(''debug'', 10), (''info'', 20), (''warning'', 30), (''error'', 40)]"

text \<open>
  \<open>urlsplit\<close> and \<open>parse_qs\<close> belong to the standard library (\<open>urlparse\<close>, or \<open>urllib.parse\<close>).
  They are parameters of the model: \<open>urlsplit\<close> gives the parts of a URL, of which the source
  reads \<open>scheme\<close> and \<open>query\<close>; \<open>parse_qs\<close> gives, for a query string and the flag
  \<open>keep_blank_values\<close>, the items of the dictionary it builds, in the order in which the loop
  of \<open>fromURL\<close> meets them.
\<close>

record SplitResult =
  scheme :: string
  query :: string

record urlparse =
  urlsplit :: "string \<Rightarrow> SplitResult"
  parse_qs :: "string \<Rightarrow> bool \<Rightarrow> (string \<times> string list) list"

text \<open>
  The loop over the options. \<open>self.logger\<close> is assigned before \<open>LOGGER_LEVELS[values[0]]\<close> is
  evaluated, so the logger stays attached when the lookup raises.
\<close>

fun fromURL_options ::
  "(string \<times> string list) list \<Rightarrow> Serial \<Rightarrow> world \<Rightarrow> unit outcome \<times> Serial \<times> world" where
  "fromURL_options [] s w = (Return (), s, w)"
| "fromURL_options ((option, values) # rest) s w =
     (if option = ''logging'' then
        (case values of
           [] \<Rightarrow> (Raise IndexError, s\<lparr>logger := Some ''pySerial.loop''\<rparr>, emit BasicConfig w)
         | v # vs \<Rightarrow>
             (case LOGGER_LEVELS v of
                None \<Rightarrow>
                  (Raise (KeyError v), s\<lparr>logger := Some ''pySerial.loop''\<rparr>, emit BasicConfig w)
              | Some l \<Rightarrow>
                  fromURL_options rest (s\<lparr>logger := Some ''pySerial.loop''\<rparr>)
                    (emit (LogDebug ''enabled logging'') (emit (SetLevel l) (emit BasicConfig w)))))
      else (Raise (ValueError (Unknown_option option)), s, w))"

text \<open>Of what the loop can raise, \<open>except ValueError\<close> catches the \<open>ValueError\<close> only.\<close>

definition fromURL ::
  "urlparse \<Rightarrow> string \<Rightarrow> Serial \<Rightarrow> world \<Rightarrow> unit outcome \<times> Serial \<times> world" where
  "fromURL U url s w =
     (let parts = urlsplit U url in
      if scheme parts \<noteq> ''loop'' then
        (Raise (SerialException (Expected_loop_url (Not_starting_with_loop (scheme parts)))), s, w)
      else (case fromURL_options (parse_qs U (query parts) True) s w of
              (Raise (ValueError m), s', w') \<Rightarrow>
                (Raise (SerialException (Expected_loop_url m)), s', w')
            | r \<Rightarrow> r))"

definition reconfigurePort :: "Serial \<Rightarrow> world \<Rightarrow> unit outcome \<times> Serial \<times> world" where
  "reconfigurePort s w =
     (if \<not> (0 < baudrate s \<and> baudrate s < 2 ^ 32) then
        (Raise (ValueError (Invalid_baudrate (baudrate s))), s, w)
      else (Return (), s, logger_info ''_reconfigurePort()'' s w))"

text \<open>
  \<open>open\<close> first forgets the logger and makes a new queue, then looks at the port. What
  follows \<open>self._isOpen = True\<close> is \<open>open_finish\<close>.
\<close>

definition open_finish :: "Serial \<Rightarrow> world \<Rightarrow> unit outcome \<times> Serial \<times> world" where
  "open_finish s w =
     (let w1 = (if \<not> dsrdtr s then update_dtr_state s w else w);
          w2 = (if \<not> rtscts s then update_rts_state s w1 else w1)
      in case reset_input_buffer s w2 of
           (Return u, s', w') \<Rightarrow> reset_output_buffer s' w'
         | r \<Rightarrow> r)"

definition "open" :: "urlparse \<Rightarrow> Serial \<Rightarrow> world \<Rightarrow> unit outcome \<times> Serial \<times> world" where
  "open U s w =
     (if isOpen s then (Raise (SerialException Port_is_already_open), s, w)
      else
        (let s1 = s\<lparr>logger := None, queue := Some (Queue_new (buffer_size s))\<rparr> in
         case port s1 of
           None \<Rightarrow> (Raise (SerialException Port_must_be_configured), s1, w)
         | Some url \<Rightarrow>
             (case fromURL U url s1 w of
                (Return u, s2, w2) \<Rightarrow>
                  (case reconfigurePort s2 w2 of
                     (Return u', s3, w3) \<Rightarrow> open_finish (s3\<lparr>isOpen := True\<rparr>) w3
                   | r \<Rightarrow> r)
              | r \<Rightarrow> r)))"

subsection \<open>Reachable objects\<close>

text \<open>
  \<open>SerialBase\<close>, the base class, is not part of this module; of its constructor only this is
  used: a new object is not open and has no queue yet. Its property setters change the
  configuration, and leave \<open>_isOpen\<close> and the queue to the methods below.
\<close>

inductive reachable :: "urlparse \<Rightarrow> Serial \<Rightarrow> bool" for U :: urlparse where
  created: "\<not> isOpen s \<Longrightarrow> queue s = None \<Longrightarrow> reachable U s"
| configured: "reachable U s \<Longrightarrow> isOpen s' = isOpen s \<Longrightarrow> queue s' = queue s \<Longrightarrow> reachable U s'"
| opened: "reachable U s \<Longrightarrow> reachable U (fst (snd (open U s w)))"
| closed: "reachable U s \<Longrightarrow> reachable U (fst (snd (close s w)))"
| has_read: "reachable U s \<Longrightarrow> reachable U (fst (snd (read n s w)))"
| has_written: "reachable U s \<Longrightarrow> reachable U (fst (snd (write data s w)))"
| has_reset_input: "reachable U s \<Longrightarrow> reachable U (fst (snd (reset_input_buffer s w)))"
| has_reset_output: "reachable U s \<Longrightarrow> reachable U (fst (snd (reset_output_buffer s w)))"

text \<open>An open object has its queue, and a queue holds bytes only, never \<open>None\<close>.\<close>

definition consistent :: "Serial \<Rightarrow> bool" where
  "consistent s =
     (case queue s of
        None \<Rightarrow> \<not> isOpen s
      | Some q \<Rightarrow> None \<notin> set (items q))"

text \<open>A timeout is \<open>None\<close> or a number that is not negative.\<close>

definition timeout_ok :: "seconds option \<Rightarrow> bool" where
  "timeout_ok tmo = (case tmo of None \<Rightarrow> True | Some d \<Rightarrow> 0 \<le> d)"

subsection \<open>Example objects\<close>

definition world0 :: world where
  "world0 = \<lparr>trace = [], clock = (\<lambda>n. 1000 + of_nat n), ticks = 0\<rparr>"

text \<open>
  A new object for the port \<open>loop://\<close>; the same object after \<open>open()\<close>; and an object that
  was used before: two bytes are left in its queue, it is closed and its port has been set
  to \<open>None\<close>.
\<close>

definition Serial_closed :: Serial where
  "Serial_closed =
     \<lparr>buffer_size = 4096, isOpen = False, port = Some ''loop://'', baudrate = 9600,
      timeout = None, writeTimeout = None, rts_state = True, dtr_state = True,
      break_state = False, dsrdtr = False, rtscts = False, logger = None, queue = None\<rparr>"

definition Serial_open :: Serial where
  "Serial_open = Serial_closed\<lparr>isOpen := True, queue := Some \<lparr>maxsize = 4096, items = []\<rparr>\<rparr>"

definition Serial_used :: Serial where
  "Serial_used =
     Serial_closed\<lparr>port := None, logger := Some ''pySerial.loop'',
       queue := Some \<lparr>maxsize = 4096, items = [Some 104, Some 105]\<rparr>\<rparr>"

text \<open>
  The object that \<open>open()\<close> makes of a new one for the port \<open>loop://?logging=debug\<close>,
  after two bytes were written.
\<close>

definition Serial_logging :: Serial where
  "Serial_logging =
     Serial_open\<lparr>port := Some ''loop://?logging=debug'', logger := Some ''pySerial.loop'',
       queue := Some \<lparr>maxsize = 4096, items = [Some 104, Some 105]\<rparr>\<rparr>"

text \<open>What the standard library returns for the URLs of the examples.\<close>

definition urlparse_table :: urlparse where
  "urlparse_table =
     \<lparr>urlsplit = (\<lambda>url.
        if url = ''loop://'' then \<lparr>scheme = ''loop'', query = []\<rparr>
        else if url = ''loop://?logging=bogus'' then \<lparr>scheme = ''loop'', query = ''logging=bogus''\<rparr>
        else if url = ''loop://?logging=debug'' then \<lparr>scheme = ''loop'', query = ''logging=debug''\<rparr>
        else if url = ''loop://?unknown=1'' then \<lparr>scheme = ''loop'', query = ''unknown=1''\<rparr>
        else if url = ''ftp://'' then \<lparr>scheme = ''ftp'', query = []\<rparr>
        else \<lparr>scheme = [], query = []\<rparr>),
      parse_qs = (\<lambda>q keep_blank_values.
        if q = ''logging=bogus'' then [(''logging'', [''bogus''])]
        else if q = ''logging=debug'' then [(''logging'', [''debug''])]
        else if q = ''unknown=1'' then [(''unknown'', [''1''])]
        else [])\<rparr>"

section \<open>Properties\<close>

subsection \<open>Rounding to a double\<close>

lemma pow2_succ: "(2 :: rat) powi (e + 1) = 2 * 2 powi e"
  by (simp add: power_int_add)

lemma ilog2_bounds: "0 < x \<Longrightarrow> 2 powi ilog2 x \<le> x \<and> x < 2 powi (ilog2 x + 1)"
proof (induction x rule: ilog2.induct)
  case (1 x)
  show ?case
  proof (cases "2 \<le> x")
    case True
    with "1.IH"(1) have IH: "2 powi ilog2 (x / 2) \<le> x / 2" "x / 2 < 2 powi (ilog2 (x / 2) + 1)"
      by simp_all
    from True have e: "ilog2 x = ilog2 (x / 2) + 1"
      by (subst ilog2.simps) simp
    from IH(1) have "2 powi (ilog2 (x / 2) + 1) \<le> x"
      unfolding pow2_succ by linarith
    moreover from IH(2) have "x < 2 powi (ilog2 (x / 2) + 1 + 1)"
      unfolding pow2_succ [of "ilog2 (x / 2) + 1"] by linarith
    ultimately show ?thesis unfolding e by simp
  next
    case False
    show ?thesis
    proof (cases "x < 1")
      case True
      with False "1.IH"(2) "1.prems"
      have IH: "2 powi ilog2 (x * 2) \<le> x * 2" "x * 2 < 2 powi (ilog2 (x * 2) + 1)"
        by simp_all
      from True False "1.prems" have e: "ilog2 x = ilog2 (x * 2) - 1"
        by (subst ilog2.simps) simp
      have p: "(2 :: rat) powi ilog2 (x * 2) = 2 * 2 powi (ilog2 (x * 2) - 1)"
        using pow2_succ [of "ilog2 (x * 2) - 1"] by simp
      from IH(1) have "2 powi (ilog2 (x * 2) - 1) \<le> x"
        unfolding p by linarith
      moreover from IH(2) have "x < 2 powi (ilog2 (x * 2) - 1 + 1)"
        unfolding pow2_succ [of "ilog2 (x * 2)"] by simp
      ultimately show ?thesis unfolding e by simp
    next
      case ge: False
      with False have "ilog2 x = 0" by (subst ilog2.simps) simp
      with False ge show ?thesis by simp
    qed
  qed
qed

lemma round_half_even_of_int: "round_half_even (of_int k) = k"
  by (simp add: round_half_even_def)

text \<open>A number that has no more than 53 significant bits is not changed.\<close>

lemma to_double_exact:
  assumes "x / 2 powi (ilog2 \<bar>x\<bar> - 52) = of_int k"
  shows "to_double x = x"
proof (cases "x = 0")
  case True
  then show ?thesis by (simp add: to_double_def)
next
  case False
  have "to_double x = of_int k * 2 powi (ilog2 \<bar>x\<bar> - 52)"
    using False by (simp add: to_double_def assms round_half_even_of_int)
  also have "\<dots> = x / 2 powi (ilog2 \<bar>x\<bar> - 52) * 2 powi (ilog2 \<bar>x\<bar> - 52)"
    by (simp only: assms)
  also have "\<dots> = x"
    by simp
  finally show ?thesis .
qed

lemma to_double_of_int:
  assumes "\<bar>n\<bar> < 2 ^ 53"
  shows "to_double (of_int n) = of_int n"
proof (cases "n = 0")
  case True
  then show ?thesis by (simp add: to_double_def)
next
  case False
  define e where "e = ilog2 \<bar>of_int n\<bar>"
  from False have pos: "0 < \<bar>of_int n :: rat\<bar>" by simp
  from ilog2_bounds [OF pos] have "2 powi e \<le> \<bar>of_int n :: rat\<bar>"
    unfolding e_def by simp
  also have "\<bar>of_int n :: rat\<bar> = of_int \<bar>n\<bar>" by simp
  also from assms have "(of_int \<bar>n\<bar> :: rat) < of_int (2 ^ 53)"
    by (simp only: of_int_less_iff)
  also have "(of_int (2 ^ 53) :: rat) = 2 powi 53" by simp
  finally have "(2 :: rat) powi e < 2 powi 53" .
  then have e: "e < 53" by (rule power_int_le_imp_less_exp [rotated]) simp_all
  define m where "m = nat (52 - e)"
  from e have em: "e - 52 = - int m" unfolding m_def by simp
  have "of_int n / (2 :: rat) powi (e - 52) = of_int n * 2 ^ m"
    unfolding em by (simp add: power_int_minus field_simps)
  also have "\<dots> = of_int (n * 2 ^ m)" by simp
  finally have "of_int n / (2 :: rat) powi (ilog2 \<bar>of_int n\<bar> - 52) = of_int (n * 2 ^ m)"
    unfolding e_def .
  then show ?thesis by (rule to_double_exact)
qed

text \<open>Some doubles: \<open>0.1\<close>, \<open>10.0/9600\<close>, and the two neighbours of \<open>2^53 + 2\<close>.\<close>

lemma to_double_examples:
  "to_double (1 / 10) = 3602879701896397 / 36028797018963968"
  "to_double (10 / 9600) = 4803839602528529 / 4611686018427387904"
  "to_double 9007199254740993 = 9007199254740992"
  "to_double 9007199254740995 = 9007199254740996"
  by code_simp+

text \<open>
  For fewer than \<open>2^49\<close> bytes and a baud rate below \<open>2^53\<close> the two conversions and the
  product are exact, and \<open>time_used_to_send\<close> is the exact quotient rounded once.
\<close>

lemma time_used_to_send_rounded:
  assumes "length data < 2 ^ 49" and "\<bar>baudrate s\<bar> < 2 ^ 53"
  shows "time_used_to_send data s =
           to_double (10 * of_nat (length data) / of_int (baudrate s))"
proof -
  from assms(1) have n: "\<bar>int (length data)\<bar> < 2 ^ 53" and p: "\<bar>10 * int (length data)\<bar> < 2 ^ 53"
    by simp_all
  from to_double_of_int [OF n] have 1: "to_double (of_nat (length data)) = of_nat (length data)"
    by simp
  from to_double_of_int [OF p]
  have 2: "to_double (10 * of_nat (length data)) = 10 * of_nat (length data)"
    by simp
  from to_double_of_int [OF assms(2)] 1 2 show ?thesis
    by (simp add: time_used_to_send_def)
qed

subsection \<open>The loops\<close>

lemma drain_empties: "drain q = q\<lparr>items := []\<rparr>"
proof (induction "items q" arbitrary: q)
  case Nil
  then show ?case by (subst drain.simps) (simp add: qsize_def)
next
  case (Cons x xs)
  from Cons.hyps(2) have "xs = items (q\<lparr>items := xs\<rparr>)" by simp
  then have "drain (q\<lparr>items := xs\<rparr>) = q\<lparr>items := xs, items := []\<rparr>"
    by (rule Cons.hyps(1))
  with Cons.hyps(2) [symmetric] show ?case
    by (subst drain.simps) (simp add: qsize_def get_nowait_def)
qed

lemma write_loop_room:
  assumes "queue s = Some q" and "writeTimeout s = None"
    and "maxsize q \<le> 0 \<or> int (length (items q) + length bs) \<le> maxsize q"
  shows "write_loop bs s w = (Return (), s\<lparr>queue := Some (q\<lparr>items := items q @ map Some bs\<rparr>)\<rparr>, w)"
  using assms
proof (induction bs arbitrary: s q)
  case Nil
  then show ?case by simp
next
  case (Cons b bs)
  let ?q = "q\<lparr>items := items q @ [Some b]\<rparr>"
  let ?s = "s\<lparr>queue := Some ?q\<rparr>"
  from Cons.prems have put: "queue_put (Some b) (writeTimeout s) q w = (Return (), ?q, w)"
    by (auto simp: queue_put_def qsize_def)
  have "write_loop bs ?s w = (Return (), ?s\<lparr>queue := Some (?q\<lparr>items := items ?q @ map Some bs\<rparr>)\<rparr>, w)"
    using Cons.prems by (intro Cons.IH) auto
  with put Cons.prems(1) show ?case by simp
qed

lemma write_room:
  assumes "isOpen s" and "queue s = Some q" and "writeTimeout s = None" and "baudrate s \<noteq> 0"
    and "maxsize q \<le> 0 \<or> int (length (items q) + length bs) \<le> maxsize q"
  shows "write bs s w =
           (Return (length bs), s\<lparr>queue := Some (q\<lparr>items := items q @ map Some bs\<rparr>)\<rparr>, w)"
  using assms write_loop_room [of s q bs w] by (simp add: write_def)

lemma read_loop_all:
  assumes "queue s = Some q" and "items q = map Some xs @ rest" and "isOpen s"
    and "timeout s = None"
  shows "read_loop None (int (length xs)) data s w =
           (Return (data @ xs), s\<lparr>queue := Some (q\<lparr>items := rest\<rparr>)\<rparr>, w)"
  using assms
proof (induction xs arbitrary: data s q)
  case Nil
  then show ?case by (subst read_loop.simps) simp
next
  case (Cons x xs)
  let ?q = "q\<lparr>items := map Some xs @ rest\<rparr>"
  let ?s = "s\<lparr>queue := Some ?q\<rparr>"
  from Cons.prems have get: "queue_get (timeout s) q w = (Return (Some x), ?q, w)"
    by (simp add: queue_get_def)
  have "read_loop None (int (length xs)) (data @ [x]) ?s w =
          (Return ((data @ [x]) @ xs), ?s\<lparr>queue := Some (?q\<lparr>items := rest\<rparr>)\<rparr>, w)"
    using Cons.prems by (intro Cons.IH) auto
  with get Cons.prems show ?case by (subst read_loop.simps) simp
qed

lemma read_all:
  assumes "isOpen s" and "queue s = Some q" and "items q = map Some xs" and "timeout s = None"
  shows "read (int (length xs)) s w = (Return xs, s\<lparr>queue := Some (q\<lparr>items := []\<rparr>)\<rparr>, w)"
  using assms read_loop_all [of s q xs "[]" "[]" w] by (simp add: read_def)

lemma read_loop_done:
  "\<not> (0 < n \<and> isOpen s) \<Longrightarrow> read_loop dl n data s w = (Return data, s, w)"
  by (subst read_loop.simps) auto

lemma read_loop_outcome:
  assumes "queue s = Some q" and "items q = map Some bs" and "timeout_ok (timeout s)"
  shows "\<exists>k r w'. k \<le> length bs \<and> k \<le> nat n \<and>
           read_loop dl n data s w = (r, s\<lparr>queue := Some (q\<lparr>items := map Some (drop k bs)\<rparr>)\<rparr>, w') \<and>
           (r = Return (data @ take k bs) \<or> r = Blocked \<and> timeout s = None)"
  using assms
proof (induction bs arbitrary: s q n data w)
  case Nil
  show ?case
  proof (cases "0 < n \<and> isOpen s")
    case False
    with Nil read_loop_done [OF False] show ?thesis by auto
  next
    case True
    with Nil show ?thesis
      by (subst read_loop.simps)
         (auto simp: queue_get_def timeout_ok_def split: option.splits)
  qed
next
  case (Cons b bs)
  define P where "P = (\<lambda>res. \<exists>k r. \<exists>w' :: world. k \<le> length (b # bs) \<and> k \<le> nat n \<and>
           res = (r, s\<lparr>queue := Some (q\<lparr>items := map Some (drop k (b # bs))\<rparr>)\<rparr>, w') \<and>
           (r = Return (data @ take k (b # bs)) \<or> r = Blocked \<and> timeout s = None))"
  have "P (read_loop dl n data s w)"
  proof (cases "0 < n \<and> isOpen s")
    case False
    have "s\<lparr>queue := Some (q\<lparr>items := map Some (drop 0 (b # bs))\<rparr>)\<rparr> = s"
      using Cons.prems by simp
    with read_loop_done [OF False] show ?thesis
      unfolding P_def by (intro exI [of _ 0]) auto
  next
    case True
    let ?q = "q\<lparr>items := map Some bs\<rparr>"
    let ?s = "s\<lparr>queue := Some ?q\<rparr>"
    from Cons.prems have
      get: "queue_get (timeout s) q w = (Return (Some b), ?q, w)"
      by (auto simp: queue_get_def timeout_ok_def split: option.splits)
    have step: "P (read_loop dl (n - 1) (data @ [b]) ?s v)" for v
    proof -
      have "\<exists>k r w'. k \<le> length bs \<and> k \<le> nat (n - 1) \<and>
           read_loop dl (n - 1) (data @ [b]) ?s v = (r, ?s\<lparr>queue := Some (?q\<lparr>items := map Some (drop k bs)\<rparr>)\<rparr>, w') \<and>
           (r = Return ((data @ [b]) @ take k bs) \<or> r = Blocked \<and> timeout ?s = None)"
        using Cons.prems by (intro Cons.IH) auto
      then obtain k r w' where k: "k \<le> length bs" "k \<le> nat (n - 1)"
        "read_loop dl (n - 1) (data @ [b]) ?s v = (r, ?s\<lparr>queue := Some (?q\<lparr>items := map Some (drop k bs)\<rparr>)\<rparr>, w')"
        "r = Return ((data @ [b]) @ take k bs) \<or> r = Blocked \<and> timeout ?s = None"
        by blast
      with True show ?thesis
        unfolding P_def by (intro exI [of _ "Suc k"] exI [of _ r] exI [of _ w']) auto
    qed
    have one: "P (Return (data @ [b]), ?s, v)" for v :: world
      using True unfolding P_def by (intro exI [of _ "Suc 0"]) auto
    show ?thesis
      using True Cons.prems(1) get step one
      by (subst read_loop.simps) (auto split: option.splits)
  qed
  then show ?case unfolding P_def .
qed

lemma read_outcome:
  assumes "isOpen s" and "queue s = Some q" and "items q = map Some bs"
    and "timeout_ok (timeout s)"
  shows "\<exists>k r w'. k \<le> length bs \<and> k \<le> nat n \<and>
           read n s w = (r, s\<lparr>queue := Some (q\<lparr>items := map Some (drop k bs)\<rparr>)\<rparr>, w') \<and>
           (r = Return (take k bs) \<or> r = Blocked \<and> timeout s = None)"
proof (cases "timeout s")
  case None
  with assms read_loop_outcome [of s q bs n None "[]" w] show ?thesis
    by (simp add: read_def)
next
  case (Some d)
  with assms
    read_loop_outcome [of s q bs n "Some (to_double (fst (time_time w) + to_double d))" "[]"
      "snd (time_time w)"]
  show ?thesis
    by (simp add: read_def)
qed

subsection \<open>The invariant\<close>

lemma only_bytes: "None \<notin> set xs \<Longrightarrow> xs = map Some (map the xs)"
  by (induction xs) auto

lemma queue_put_items:
  "queue_put x tmo q w = (r, q', w') \<Longrightarrow> items q' = items q \<or> items q' = items q @ [x]"
  by (auto simp: queue_put_def Let_def split: option.splits if_splits)

lemma queue_get_items:
  "queue_get tmo q w = (r, q', w') \<Longrightarrow> set (items q') \<subseteq> set (items q)"
  by (auto simp: queue_get_def split: option.splits if_splits list.splits)

lemma write_loop_consistent:
  "consistent s \<Longrightarrow> consistent (fst (snd (write_loop bs s w)))"
proof (induction bs arbitrary: s w)
  case Nil
  then show ?case by simp
next
  case (Cons b bs)
  show ?case
  proof (cases "queue s")
    case None
    with Cons.prems show ?thesis by simp
  next
    case (Some q)
    obtain r q' w' where put: "queue_put (Some b) (writeTimeout s) q w = (r, q', w')"
      by (cases "queue_put (Some b) (writeTimeout s) q w") auto
    from queue_put_items [OF put] Cons.prems Some
    have c: "consistent (s\<lparr>queue := Some q'\<rparr>)"
      by (auto simp: consistent_def)
    from Cons.IH [OF c] c Some put show ?thesis
      by (cases r) auto
  qed
qed

lemma write_consistent: "consistent s \<Longrightarrow> consistent (fst (snd (write bs s w)))"
  using write_loop_consistent [of s bs w]
  by (auto simp: write_def time_sleep_def split: option.splits prod.splits outcome.splits)

lemma read_loop_consistent:
  "consistent s \<Longrightarrow> consistent (fst (snd (read_loop dl n data s w)))"
proof (induction dl n data s w rule: read_loop.induct)
  case (1 dl n data s w)
  show ?case
  proof (cases "0 < n \<and> isOpen s")
    case False
    with "1.prems" read_loop_done [OF False] show ?thesis by simp
  next
    case True
    with "1.prems" obtain q where q: "queue s = Some q" and nn: "None \<notin> set (items q)"
      by (auto simp: consistent_def split: option.splits)
    obtain r q' w' where get: "queue_get (timeout s) q w = (r, q', w')"
      by (cases "queue_get (timeout s) q w") auto
    from queue_get_items [OF get] nn have c: "consistent (s\<lparr>queue := Some q'\<rparr>)"
      by (auto simp: consistent_def)
    show ?thesis
    proof (cases r)
      case (Return x)
      show ?thesis
      proof (cases x)
        case None
        with Return True q get c show ?thesis by (subst read_loop.simps) simp
      next
        case (Some b)
        note IH = "1.IH" [OF True q get [symmetric, unfolded Return Some] refl refl]
        from Return Some True q get c IH show ?thesis
          by (subst read_loop.simps) (auto split: option.splits)
      qed
    next
      case (Raise e)
      with True q get c show ?thesis by (subst read_loop.simps) simp
    next
      case Blocked
      with True q get c show ?thesis by (subst read_loop.simps) simp
    qed
  qed
qed

lemma read_consistent: "consistent s \<Longrightarrow> consistent (fst (snd (read n s w)))"
  using read_loop_consistent [of s]
  by (simp add: read_def split: option.splits)

lemma close_consistent: "consistent s \<Longrightarrow> consistent (fst (snd (close s w)))"
  by (auto simp: close_def consistent_def time_sleep_def split: option.splits)

lemma reset_input_buffer_consistent:
  "consistent s \<Longrightarrow> consistent (fst (snd (reset_input_buffer s w)))"
  by (auto simp: reset_input_buffer_def consistent_def drain_empties split: option.splits)

lemma reset_output_buffer_consistent:
  "consistent s \<Longrightarrow> consistent (fst (snd (reset_output_buffer s w)))"
  by (auto simp: reset_output_buffer_def consistent_def drain_empties split: option.splits)

lemma fromURL_options_frame:
  "fromURL_options os s w = (r, s', w') \<Longrightarrow> queue s' = queue s \<and> isOpen s' = isOpen s"
proof (induction os arbitrary: s w)
  case Nil
  then show ?case by auto
next
  case (Cons o1 os)
  obtain opt vals where o1: "o1 = (opt, vals)" by (cases o1) auto
  from Cons.prems Cons.IH show ?case
    unfolding o1 by (fastforce split: if_splits list.splits option.splits)
qed

lemma fromURL_frame:
  assumes "fromURL U url s w = (r, s', w')"
  shows "queue s' = queue s \<and> isOpen s' = isOpen s"
proof (cases "scheme (urlsplit U url) = ''loop''")
  case False
  with assms show ?thesis by (auto simp: fromURL_def)
next
  case True
  obtain r1 s1 w1 where
    opts: "fromURL_options (parse_qs U (query (urlsplit U url)) True) s w = (r1, s1, w1)"
    by (cases "fromURL_options (parse_qs U (query (urlsplit U url)) True) s w") auto
  from assms True opts have "s' = s1"
    by (auto simp: fromURL_def split: outcome.splits exn.splits)
  with fromURL_options_frame [OF opts] show ?thesis by simp
qed

lemma open_finish_consistent:
  "consistent s \<Longrightarrow> consistent (fst (snd (open_finish s w)))"
proof -
  assume c: "consistent s"
  define w2 where "w2 = (if \<not> rtscts s then update_rts_state s (if \<not> dsrdtr s then update_dtr_state s w else w)
      else (if \<not> dsrdtr s then update_dtr_state s w else w))"
  obtain r s1 w1 where ri: "reset_input_buffer s w2 = (r, s1, w1)"
    by (cases "reset_input_buffer s w2") auto
  from reset_input_buffer_consistent [OF c, of w2] ri have c1: "consistent s1" by simp
  from reset_output_buffer_consistent [OF c1, of w1] c1 ri show ?thesis
    by (cases r) (simp_all add: open_finish_def Let_def w2_def)
qed

lemma open_consistent: "consistent s \<Longrightarrow> consistent (fst (snd (open U s w)))"
proof (cases "isOpen s")
  case True
  assume "consistent s"
  with True show ?thesis by (simp add: open_def)
next
  case False
  let ?s1 = "s\<lparr>logger := None, queue := Some (Queue_new (buffer_size s))\<rparr>"
  have c1: "consistent ?s1" by (simp add: consistent_def Queue_new_def)
  show ?thesis
  proof (cases "port s")
    case None
    with False c1 show ?thesis by (simp add: open_def Let_def)
  next
    case (Some url)
    obtain r s2 w2 where f: "fromURL U url ?s1 w = (r, s2, w2)"
      by (cases "fromURL U url ?s1 w") auto
    from fromURL_frame [OF f] have c2: "consistent s2"
      by (simp add: consistent_def Queue_new_def)
    then have c3: "consistent (s2\<lparr>isOpen := True\<rparr>)"
      using fromURL_frame [OF f] by (simp add: consistent_def)
    from open_finish_consistent [OF c3] c2 False Some f show ?thesis
      by (cases r) (auto simp: open_def Let_def reconfigurePort_def)
  qed
qed

theorem reachable_consistent: "reachable U s \<Longrightarrow> consistent s"
proof (induction rule: reachable.induct)
  case (created s)
  then show ?case by (simp add: consistent_def)
next
  case (configured s s')
  then show ?case by (auto simp: consistent_def split: option.splits)
next
  case (opened s w)
  then show ?case by (simp add: open_consistent)
next
  case (closed s w)
  then show ?case by (simp add: close_consistent)
next
  case (has_read s n w)
  then show ?case by (simp add: read_consistent)
next
  case (has_written s data w)
  then show ?case by (simp add: write_consistent)
next
  case (has_reset_input s w)
  then show ?case by (simp add: reset_input_buffer_consistent)
next
  case (has_reset_output s w)
  then show ?case by (simp add: reset_output_buffer_consistent)
qed

lemma consistent_open:
  assumes "consistent s" and "isOpen s"
  shows "\<exists>q bs. queue s = Some q \<and> items q = map Some bs"
proof -
  from assms obtain q where q: "queue s = Some q" "None \<notin> set (items q)"
    by (auto simp: consistent_def split: option.splits)
  from only_bytes [OF q(2)] q(1) show ?thesis by blast
qed

subsection \<open>Single calls\<close>

lemma closed_raises_portNotOpenError:
  assumes "\<not> isOpen s"
  shows "read n s w = (Raise portNotOpenError, s, w)"
    and "write data s w = (Raise portNotOpenError, s, w)"
    and "in_waiting s w = (Raise portNotOpenError, s, w)"
    and "reset_input_buffer s w = (Raise portNotOpenError, s, w)"
    and "reset_output_buffer s w = (Raise portNotOpenError, s, w)"
    and "cts s w = (Raise portNotOpenError, s, w)"
    and "ri s w = (Raise portNotOpenError, s, w)"
    and "cd s w = (Raise portNotOpenError, s, w)"
  using assms
  by (simp_all add: read_def write_def in_waiting_def reset_input_buffer_def
        reset_output_buffer_def cts_def ri_def cd_def)

text \<open>
  \<open>dsr\<close> on an object that was never opened, and on every object that was: no test of
  \<open>_isOpen\<close>.
\<close>

lemma dsr_never_opened: "dsr Serial_closed world0 = (Raise AttributeError, Serial_closed, world0)"
  by (simp add: dsr_def Serial_closed_def)

lemma dsr_returns_dtr_state: "queue s = Some q \<Longrightarrow> fst (dsr s w) = Return (dtr_state s)"
  by (simp add: dsr_def)

text \<open>
  A write timeout that is equal to the time needed: the double \<open>10.0/9600\<close>, for one byte at
  9600 baud. The test of \<open>write\<close> is a strict one, and the byte goes into the queue.
\<close>

lemma write_at_equal_duration:
  "time_used_to_send [104] Serial_open = 4803839602528529 / 4611686018427387904"
  "write [104] (Serial_open\<lparr>writeTimeout := Some (4803839602528529 / 4611686018427387904)\<rparr>) world0 =
     (Return 1,
      Serial_open\<lparr>writeTimeout := Some (4803839602528529 / 4611686018427387904),
        queue := Some \<lparr>maxsize = 4096, items = [Some 104]\<rparr>\<rparr>,
      world0)"
proof -
  show t: "time_used_to_send [104] Serial_open = 4803839602528529 / 4611686018427387904"
    by code_simp
  have "time_used_to_send [104]
          (Serial_open\<lparr>writeTimeout := Some (4803839602528529 / 4611686018427387904)\<rparr>) =
        time_used_to_send [104] Serial_open"
    by (simp add: time_used_to_send_def)
  with t show "write [104]
      (Serial_open\<lparr>writeTimeout := Some (4803839602528529 / 4611686018427387904)\<rparr>) world0 =
     (Return 1,
      Serial_open\<lparr>writeTimeout := Some (4803839602528529 / 4611686018427387904),
        queue := Some \<lparr>maxsize = 4096, items = [Some 104]\<rparr>\<rparr>,
      world0)"
    by (simp add: write_def queue_put_def qsize_def Serial_open_def Serial_closed_def)
qed

lemma close_keeps_queue: "queue (fst (snd (close s w))) = queue s"
  by (simp add: close_def split: prod.splits)

lemma read_None_TypeError:
  assumes "isOpen s" and "queue s = Some q" and "items q = None # xs" and "timeout_ok (timeout s)"
    and "0 < n"
  shows "fst (read n s w) = Raise TypeError"
  using assms
  by (auto simp: read_def read_loop.simps [of _ n] queue_get_def timeout_ok_def
      split: option.splits)

lemma fromURL_unknown_level:
  assumes "scheme (urlsplit U url) = ''loop''"
    and "parse_qs U (query (urlsplit U url)) True = [(''logging'', [v])]"
    and "LOGGER_LEVELS v = None"
  shows "fst (fromURL U url s w) = Raise (KeyError v)"
  using assms by (simp add: fromURL_def)

lemma open_other_malformed:
  "fst (open urlparse_table (Serial_closed\<lparr>port := Some ''ftp://''\<rparr>) world0) =
     Raise (SerialException (Expected_loop_url (Not_starting_with_loop ''ftp'')))"
  "fst (open urlparse_table (Serial_closed\<lparr>port := Some ''loop://?unknown=1''\<rparr>) world0) =
     Raise (SerialException (Expected_loop_url (Unknown_option ''unknown'')))"
  by (simp_all add: open_def Serial_closed_def urlparse_table_def fromURL_def)

subsection \<open>The example objects are reachable\<close>

lemma open_Serial_closed: "open urlparse_table Serial_closed world0 = (Return (), Serial_open, world0)"
  by (simp add: open_def open_finish_def Serial_open_def Serial_closed_def urlparse_table_def
      fromURL_def reconfigurePort_def Queue_new_def logger_info_def update_dtr_state_def
      update_rts_state_def reset_input_buffer_def reset_output_buffer_def drain_empties)

lemma Serial_open_reachable: "reachable urlparse_table Serial_open"
proof -
  have "reachable urlparse_table Serial_closed"
    by (rule reachable.created) (simp_all add: Serial_closed_def)
  then have "reachable urlparse_table (fst (snd (open urlparse_table Serial_closed world0)))"
    by (rule reachable.opened)
  then show ?thesis by (simp add: open_Serial_closed)
qed

lemma Serial_reclosed_reachable: "reachable urlparse_table (Serial_open\<lparr>isOpen := False\<rparr>)"
  using reachable.closed [OF Serial_open_reachable, of world0]
  by (simp add: close_def Serial_open_def time_sleep_def)

lemma Serial_used_reachable: "reachable urlparse_table Serial_used"
proof -
  have "write [104, 105] Serial_open world0 =
          (Return 2, Serial_open\<lparr>queue := Some \<lparr>maxsize = 4096, items = [Some 104, Some 105]\<rparr>\<rparr>, world0)"
    using write_room [of Serial_open "\<lparr>maxsize = 4096, items = []\<rparr>" "[104, 105]" world0]
    by (simp add: Serial_open_def Serial_closed_def)
  with reachable.has_written [OF Serial_open_reachable, of "[104, 105]" world0]
  have "reachable urlparse_table
          (Serial_open\<lparr>queue := Some \<lparr>maxsize = 4096, items = [Some 104, Some 105]\<rparr>\<rparr>)"
    by simp
  from reachable.closed [OF this, of world0]
  have "reachable urlparse_table
          (Serial_open\<lparr>queue := Some \<lparr>maxsize = 4096, items = [Some 104, Some 105]\<rparr>,
             isOpen := False\<rparr>)"
    by (simp add: close_def Serial_open_def time_sleep_def)
  then show ?thesis
    by (rule reachable.configured) (simp_all add: Serial_used_def Serial_open_def Serial_closed_def)
qed

lemma open_with_logging:
  "open urlparse_table (Serial_closed\<lparr>port := Some ''loop://?logging=debug''\<rparr>) world0 =
     (Return (),
      Serial_logging\<lparr>queue := Some \<lparr>maxsize = 4096, items = []\<rparr>\<rparr>,
      world0\<lparr>trace :=
        [BasicConfig, SetLevel 10, LogDebug ''enabled logging'', LogInfo ''_reconfigurePort()'',
         LogInfo ''setDTR(True) -> state of DSR'', LogInfo ''setRTS(True) -> state of CTS'',
         LogInfo ''flushInput()'', LogInfo ''flushOutput()'']\<rparr>)"
  by (simp add: open_def open_finish_def Serial_logging_def Serial_open_def Serial_closed_def
      urlparse_table_def fromURL_def LOGGER_LEVELS_def reconfigurePort_def Queue_new_def
      logger_info_def update_dtr_state_def update_rts_state_def repr_bool_def emit_def world0_def
      reset_input_buffer_def reset_output_buffer_def drain_empties)

lemma Serial_logging_reachable: "reachable urlparse_table Serial_logging"
proof -
  let ?s = "Serial_logging\<lparr>queue := Some \<lparr>maxsize = 4096, items = []\<rparr>\<rparr>"
  have "reachable urlparse_table (Serial_closed\<lparr>port := Some ''loop://?logging=debug''\<rparr>)"
    by (rule reachable.created) (simp_all add: Serial_closed_def)
  from reachable.opened [OF this, of world0] have r: "reachable urlparse_table ?s"
    by (simp add: open_with_logging)
  have "write [104, 105] ?s world0 = (Return 2, Serial_logging, world0)"
    using write_room [of ?s "\<lparr>maxsize = 4096, items = []\<rparr>" "[104, 105]" world0]
    by (simp add: Serial_logging_def Serial_open_def Serial_closed_def)
  with reachable.has_written [OF r, of "[104, 105]" world0] show ?thesis
    by simp
qed

lemma read_short_examples:
  "fst (read 5 (Serial_open\<lparr>timeout := Some 1,
          queue := Some \<lparr>maxsize = 4096, items = [Some 104, Some 105]\<rparr>\<rparr>) world0) =
     Return [104, 105]"
  "fst (read 5 (Serial_open\<lparr>timeout := Some 0,
          queue := Some \<lparr>maxsize = 4096, items = [Some 104, Some 105]\<rparr>\<rparr>) world0) =
     Return [104]"
  "fst (read 5 (Serial_open\<lparr>
          queue := Some \<lparr>maxsize = 4096, items = [Some 104, Some 105]\<rparr>\<rparr>) world0) =
     Blocked"
proof -
  have d: "to_double 0 = 0" "to_double 1 = 1" "to_double 1000 = 1000" "to_double 1001 = 1001"
    using to_double_of_int [of 0] to_double_of_int [of 1] to_double_of_int [of 1000]
      to_double_of_int [of 1001]
    by simp_all
  show
    "fst (read 5 (Serial_open\<lparr>timeout := Some 1,
            queue := Some \<lparr>maxsize = 4096, items = [Some 104, Some 105]\<rparr>\<rparr>) world0) =
       Return [104, 105]"
    "fst (read 5 (Serial_open\<lparr>timeout := Some 0,
            queue := Some \<lparr>maxsize = 4096, items = [Some 104, Some 105]\<rparr>\<rparr>) world0) =
       Return [104]"
    "fst (read 5 (Serial_open\<lparr>
            queue := Some \<lparr>maxsize = 4096, items = [Some 104, Some 105]\<rparr>\<rparr>) world0) =
       Blocked"
    by (simp_all add: read_def read_loop.simps queue_get_def time_time_def world0_def wait_def
        Serial_open_def Serial_closed_def d)
qed

section \<open>The claims\<close>

subsection \<open>Closing and the end-of-data element\<close>

text \<open>
  Claim C1: for every open channel, \<open>close()\<close> pushes a "no more data" element into the
  queue before it marks the channel closed, so that a thread waiting in \<open>read()\<close> is woken
  through the ordinary \<open>get\<close> and returns the data it has.

  The method that runs does not do this. On the open example object with its empty queue,
  \<open>close()\<close> returns after clearing \<open>_isOpen\<close> and sleeping 0.3 seconds, and the queue is as
  empty as before: there is nothing in it for a waiting \<open>get\<close>. (\<open>close_keeps_queue\<close> above
  says the same of every object; \<open>read_None_TypeError\<close> says that the loop of \<open>read\<close> would not
  return its data on meeting \<open>None\<close> either.)
\<close>

theorem close_puts_no_sentinel:
  "isOpen Serial_open \<and>
   close Serial_open world0 =
     (Return (), Serial_open\<lparr>isOpen := False\<rparr>, world0\<lparr>trace := [Sleep (3 / 10)]\<rparr>) \<and>
   queue (fst (snd (close Serial_open world0))) = Some \<lparr>maxsize = 4096, items = []\<rparr>"
  by (simp add: close_def Serial_open_def Serial_closed_def world0_def time_sleep_def emit_def)

subsection \<open>The status lines\<close>

text \<open>
  Claim C2: on a channel that is not open, \<open>read\<close>, \<open>write\<close>, \<open>in_waiting\<close>,
  \<open>reset_input_buffer\<close>, \<open>reset_output_buffer\<close>, \<open>cts\<close> and \<open>dsr\<close> fail with the
  port-not-open error instead of returning a value.

  Six of the seven do (\<open>closed_raises_portNotOpenError\<close> above). \<open>dsr\<close> has no test of
  \<open>_isOpen\<close>: on the example object that was opened and closed again it returns the state
  of DTR. (On an object that was never opened it raises \<open>AttributeError\<close>, for want of a
  logger, and not the port-not-open error: \<open>dsr_never_opened\<close> above.)
\<close>

theorem dsr_closed_returns:
  "\<not> isOpen (Serial_open\<lparr>isOpen := False\<rparr>) \<and>
   dsr (Serial_open\<lparr>isOpen := False\<rparr>) world0 =
     (Return True, Serial_open\<lparr>isOpen := False\<rparr>, world0)"
  by (simp add: dsr_def Serial_open_def Serial_closed_def logger_info_def)

subsection \<open>Opening\<close>

text \<open>
  Claim C3: for an address \<open>loop://?logging=<value>\<close> whose value is none of \<open>debug\<close>,
  \<open>info\<close>, \<open>warning\<close>, \<open>error\<close>, \<open>open()\<close> fails with the address-format error, the
  \<open>SerialException\<close> that a wrong scheme or an unknown option gives.

  For \<open>loop://?logging=bogus\<close> the lookup \<open>LOGGER_LEVELS[values[0]]\<close> raises \<open>KeyError\<close>,
  which \<open>except ValueError\<close> does not catch: \<open>open()\<close> fails with that \<open>KeyError\<close>. The two
  other malformed addresses of the spec do give the \<open>SerialException\<close>
  (\<open>open_other_malformed\<close> above).
\<close>

theorem open_unknown_level_KeyError:
  "fst (open urlparse_table (Serial_closed\<lparr>port := Some ''loop://?logging=bogus''\<rparr>) world0) =
     Raise (KeyError ''bogus'')"
  by (simp add: open_def Serial_closed_def urlparse_table_def fromURL_def LOGGER_LEVELS_def)

text \<open>
  Claim C4: in every state of the channel, open or closed, and for every setting of the
  control lines, \<open>ri\<close> returns \<open>False\<close> and \<open>cd\<close> returns \<open>True\<close>; the two queries do not need
  an open channel.

  As stated this fails: on the closed example object both queries raise the port-not-open
  error.
\<close>

theorem ri_cd_closed_counterexample:
  "\<not> isOpen Serial_closed \<and>
   fst (ri Serial_closed world0) = Raise portNotOpenError \<and>
   fst (cd Serial_closed world0) = Raise portNotOpenError"
  by (simp add: ri_def cd_def Serial_closed_def)

text \<open>
  Claim C4, amended: both queries test \<open>_isOpen\<close> first. On every open channel, whatever the
  control lines are set to, \<open>ri\<close> returns \<open>False\<close> and \<open>cd\<close> returns \<open>True\<close> and the object is
  unchanged; on a channel that is not open both raise the port-not-open error.
\<close>

theorem ri_cd_when_open:
  "fst (ri s w) = (if isOpen s then Return False else Raise portNotOpenError) \<and>
   fst (cd s w) = (if isOpen s then Return True else Raise portNotOpenError) \<and>
   fst (snd (ri s w)) = s \<and> fst (snd (cd s w)) = s"
  by (simp add: ri_def cd_def)

theorem ri_cd_when_open_witness:
  "isOpen (Serial_open\<lparr>rts_state := False, dtr_state := False\<rparr>) \<and>
   fst (ri (Serial_open\<lparr>rts_state := False, dtr_state := False\<rparr>) world0) = Return False \<and>
   fst (cd (Serial_open\<lparr>rts_state := False, dtr_state := False\<rparr>) world0) = Return True"
  using ri_cd_when_open [of "Serial_open\<lparr>rts_state := False, dtr_state := False\<rparr>" world0]
  by (simp add: Serial_open_def)

subsection \<open>Writing and reading\<close>

text \<open>
  Claim C5: on an open channel with a write timeout \<open>d\<close>, if the time needed to send the
  data, the float \<open>10.0 * len(data) / baudrate\<close>, is greater than \<open>d\<close>, then \<open>write(data)\<close>
  sleeps for \<open>d\<close> seconds and fails with the write-timeout error, and nothing is put into
  the queue: the object is the one before the call. A timeout is a number that is not
  negative, and the baud rate of a channel is a positive integer below \<open>2^32\<close>.
\<close>

theorem write_timeout_nothing_written:
  assumes "isOpen s" and "writeTimeout s = Some d" and "0 \<le> d"
    and "0 < baudrate s" and "baudrate s < 2 ^ 32"
    and "d < time_used_to_send data s"
  shows "write data s w = (Raise writeTimeoutError, s, emit (Sleep d) w)"
  using assms by (simp add: write_def time_sleep_def)

theorem write_timeout_nothing_written_witness:
  "isOpen (Serial_open\<lparr>writeTimeout := Some (1 / 1024)\<rparr>) \<and>
   writeTimeout (Serial_open\<lparr>writeTimeout := Some (1 / 1024)\<rparr>) = Some (1 / 1024) \<and>
   (0 :: rat) \<le> 1 / 1024 \<and>
   0 < baudrate (Serial_open\<lparr>writeTimeout := Some (1 / 1024)\<rparr>) \<and>
   baudrate (Serial_open\<lparr>writeTimeout := Some (1 / 1024)\<rparr>) < 2 ^ 32 \<and>
   time_used_to_send [104, 105] (Serial_open\<lparr>writeTimeout := Some (1 / 1024)\<rparr>) =
     4803839602528529 / 2305843009213693952 \<and>
   1 / 1024 < time_used_to_send [104, 105] (Serial_open\<lparr>writeTimeout := Some (1 / 1024)\<rparr>) \<and>
   write [104, 105] (Serial_open\<lparr>writeTimeout := Some (1 / 1024)\<rparr>) world0 =
     (Raise writeTimeoutError, Serial_open\<lparr>writeTimeout := Some (1 / 1024)\<rparr>,
      world0\<lparr>trace := [Sleep (1 / 1024)]\<rparr>)"
proof -
  let ?s = "Serial_open\<lparr>writeTimeout := Some (1 / 1024)\<rparr>"
  have t: "time_used_to_send [104, 105] ?s = 4803839602528529 / 2305843009213693952"
    by code_simp
  have h: "isOpen ?s" "writeTimeout ?s = Some (1 / 1024)" "(0 :: rat) \<le> 1 / 1024"
    "0 < baudrate ?s" "baudrate ?s < 2 ^ 32" "1 / 1024 < time_used_to_send [104, 105] ?s"
    unfolding t by (simp_all add: Serial_open_def Serial_closed_def)
  from write_timeout_nothing_written [OF h, of world0] h t show ?thesis
    by (simp add: emit_def world0_def)
qed

text \<open>
  Claim C6: on an open channel with an empty queue, no timeouts and room for
  \<open>len(d1) + len(d2)\<close> elements, \<open>write(d1)\<close> and \<open>write(d2)\<close> return the two lengths and a
  following \<open>read(len(d1) + len(d2))\<close> returns \<open>d1 + d2\<close>, leaving the channel as it was before
  the first write; and one \<open>write\<close> of a sequence puts exactly that sequence into the queue,
  so that \<open>read(len(d))\<close> after \<open>write(d)\<close> returns \<open>d\<close> (the case where \<open>d2\<close> is empty).
\<close>

theorem write_write_read:
  assumes "isOpen s" and "queue s = Some q" and "items q = []"
    and "timeout s = None" and "writeTimeout s = None" and "baudrate s \<noteq> 0"
    and "int (length d1 + length d2) \<le> maxsize q"
  shows "write d1 s w = (Return (length d1), s\<lparr>queue := Some (q\<lparr>items := map Some d1\<rparr>)\<rparr>, w) \<and>
         write d2 (s\<lparr>queue := Some (q\<lparr>items := map Some d1\<rparr>)\<rparr>) w =
           (Return (length d2), s\<lparr>queue := Some (q\<lparr>items := map Some (d1 @ d2)\<rparr>)\<rparr>, w) \<and>
         read (int (length d1 + length d2)) (s\<lparr>queue := Some (q\<lparr>items := map Some (d1 @ d2)\<rparr>)\<rparr>) w =
           (Return (d1 @ d2), s, w) \<and>
         write (d1 @ d2) s w =
           (Return (length (d1 @ d2)), s\<lparr>queue := Some (q\<lparr>items := map Some (d1 @ d2)\<rparr>)\<rparr>, w)"
proof -
  let ?s1 = "s\<lparr>queue := Some (q\<lparr>items := map Some d1\<rparr>)\<rparr>"
  let ?s2 = "s\<lparr>queue := Some (q\<lparr>items := map Some (d1 @ d2)\<rparr>)\<rparr>"
  have w1: "write d1 s w = (Return (length d1), ?s1, w)"
    using assms write_room [of s q d1 w] by simp
  have w2: "write d2 ?s1 w = (Return (length d2), ?s2, w)"
    using assms write_room [of ?s1 "q\<lparr>items := map Some d1\<rparr>" d2 w] by simp
  have w12: "write (d1 @ d2) s w = (Return (length (d1 @ d2)), ?s2, w)"
    using assms write_room [of s q "d1 @ d2" w] by simp
  have "read (int (length (d1 @ d2))) ?s2 w =
          (Return (d1 @ d2), ?s2\<lparr>queue := Some (q\<lparr>items := map Some (d1 @ d2), items := []\<rparr>)\<rparr>, w)"
    using assms by (intro read_all) simp_all
  moreover have "?s2\<lparr>queue := Some (q\<lparr>items := map Some (d1 @ d2), items := []\<rparr>)\<rparr> = s"
    using assms by simp
  ultimately have r: "read (int (length d1 + length d2)) ?s2 w = (Return (d1 @ d2), s, w)"
    by simp
  from w1 w2 w12 r show ?thesis by blast
qed

theorem write_write_read_witness:
  "isOpen Serial_open \<and> queue Serial_open = Some \<lparr>maxsize = 4096, items = []\<rparr> \<and>
   timeout Serial_open = None \<and> writeTimeout Serial_open = None \<and> baudrate Serial_open \<noteq> 0 \<and>
   (case write [104, 105] Serial_open world0 of (r1, s1, w1) \<Rightarrow>
      case write [33] s1 w1 of (r2, s2, w2) \<Rightarrow>
        r1 = Return 2 \<and> r2 = Return 1 \<and> read 3 s2 w2 = (Return [104, 105, 33], Serial_open, world0))"
proof -
  let ?q = "\<lparr>maxsize = 4096, items = []\<rparr>"
  have h: "isOpen Serial_open" "queue Serial_open = Some ?q" "items ?q = []"
    "timeout Serial_open = None" "writeTimeout Serial_open = None" "baudrate Serial_open \<noteq> 0"
    "int (length [104 :: byte, 105] + length [33 :: byte]) \<le> maxsize ?q"
    by (simp_all add: Serial_open_def Serial_closed_def)
  from write_write_read [OF h, of world0] h show ?thesis
    by simp
qed

text \<open>
  Claim C7: on an open channel, \<open>read(n)\<close> with a read timeout of 0 and an empty queue
  returns the empty byte string at once; and in general a read that gets fewer bytes than
  asked for, because of a timeout or because the channel was closed, returns what it has
  and raises no error.

  The queue of a reachable object holds bytes only (\<open>reachable_consistent\<close>), and a timeout is
  \<open>None\<close> or not negative. Then: with timeout 0 and an empty queue \<open>read\<close> returns \<open>b''\<close>, the
  object is unchanged and nothing was waited for (the clock was read once); whatever the
  clock says, \<open>read(n)\<close> returns the first \<open>k\<close> bytes of the queue for some \<open>k\<close> that is at
  most \<open>n\<close>, and leaves the others in the queue, or, without a timeout, waits for more bytes;
  and when the loop finds \<open>_isOpen\<close> cleared, it returns the bytes collected so far.
\<close>

theorem read_short_is_no_error:
  assumes "isOpen s" and "queue s = Some q" and "items q = map Some bs"
    and "timeout_ok (timeout s)"
  shows "(timeout s = Some 0 \<and> bs = [] \<longrightarrow> read n s w = (Return [], s, snd (time_time w))) \<and>
         (\<exists>k r w'. k \<le> length bs \<and> k \<le> nat n \<and>
            read n s w = (r, s\<lparr>queue := Some (q\<lparr>items := map Some (drop k bs)\<rparr>)\<rparr>, w') \<and>
            (r = Return (take k bs) \<or> r = Blocked \<and> timeout s = None)) \<and>
         read_loop dl n data (s\<lparr>isOpen := False\<rparr>) w = (Return data, s\<lparr>isOpen := False\<rparr>, w)"
proof (intro conjI impI)
  assume a: "timeout s = Some 0 \<and> bs = []"
  show "read n s w = (Return [], s, snd (time_time w))"
  proof (cases "0 < n")
    case True
    with a assms show ?thesis
      by (simp add: read_def read_loop.simps [of _ n] queue_get_def wait_def)
  next
    case False
    with a assms show ?thesis by (simp add: read_def read_loop_done)
  qed
next
  from assms show "\<exists>k r w'. k \<le> length bs \<and> k \<le> nat n \<and>
            read n s w = (r, s\<lparr>queue := Some (q\<lparr>items := map Some (drop k bs)\<rparr>)\<rparr>, w') \<and>
            (r = Return (take k bs) \<or> r = Blocked \<and> timeout s = None)"
    by (rule read_outcome)
next
  show "read_loop dl n data (s\<lparr>isOpen := False\<rparr>) w = (Return data, s\<lparr>isOpen := False\<rparr>, w)"
    by (simp add: read_loop_done)
qed

theorem read_short_is_no_error_witness:
  "isOpen (Serial_open\<lparr>timeout := Some 0\<rparr>) \<and>
   queue (Serial_open\<lparr>timeout := Some 0\<rparr>) = Some \<lparr>maxsize = 4096, items = []\<rparr> \<and>
   timeout (Serial_open\<lparr>timeout := Some 0\<rparr>) = Some 0 \<and>
   timeout_ok (timeout (Serial_open\<lparr>timeout := Some 0\<rparr>)) \<and>
   read 5 (Serial_open\<lparr>timeout := Some 0\<rparr>) world0 =
     (Return [], Serial_open\<lparr>timeout := Some 0\<rparr>, world0\<lparr>ticks := 1\<rparr>) \<and>
   read_loop (Some 1000) 5 [104] (Serial_open\<lparr>timeout := Some 0, isOpen := False\<rparr>) world0 =
     (Return [104], Serial_open\<lparr>timeout := Some 0, isOpen := False\<rparr>, world0)"
proof -
  let ?s = "Serial_open\<lparr>timeout := Some 0\<rparr>"
  let ?q = "\<lparr>maxsize = 4096, items = []\<rparr>"
  have h: "isOpen ?s" "queue ?s = Some ?q" "items ?q = map Some []" "timeout_ok (timeout ?s)"
    by (simp_all add: Serial_open_def Serial_closed_def timeout_ok_def)
  have t: "timeout ?s = Some 0" by simp
  from read_short_is_no_error [OF h, where n = 5 and w = world0 and dl = "Some 1000" and data = "[104]"] t h
  show ?thesis
    by (simp add: time_time_def world0_def)
qed

text \<open>
  Claim C8: on an open channel with an empty queue, no write timeout, no other thread
  reading, and room for \<open>len(d)\<close> elements, \<open>write(d)\<close> returns \<open>len(d)\<close>, and \<open>in_waiting\<close>
  right after it returns \<open>len(d)\<close> too.
\<close>

theorem write_then_in_waiting:
  assumes "isOpen s" and "queue s = Some q" and "items q = []"
    and "writeTimeout s = None" and "baudrate s \<noteq> 0"
    and "int (length d) \<le> maxsize q"
  shows "write d s w = (Return (length d), s\<lparr>queue := Some (q\<lparr>items := map Some d\<rparr>)\<rparr>, w) \<and>
         fst (in_waiting (s\<lparr>queue := Some (q\<lparr>items := map Some d\<rparr>)\<rparr>) w) = Return (length d)"
  using assms write_room [of s q d w]
  by (simp add: in_waiting_def qsize_def)

theorem write_then_in_waiting_witness:
  "isOpen Serial_open \<and> queue Serial_open = Some \<lparr>maxsize = 4096, items = []\<rparr> \<and>
   writeTimeout Serial_open = None \<and> baudrate Serial_open \<noteq> 0 \<and>
   (case write [104, 105] Serial_open world0 of (r, s', w') \<Rightarrow>
      r = Return 2 \<and> fst (in_waiting s' w') = Return 2)"
proof -
  let ?q = "\<lparr>maxsize = 4096, items = []\<rparr>"
  have h: "isOpen Serial_open" "queue Serial_open = Some ?q" "items ?q = []"
    "writeTimeout Serial_open = None" "baudrate Serial_open \<noteq> 0"
    "int (length [104 :: byte, 105]) \<le> maxsize ?q"
    by (simp_all add: Serial_open_def Serial_closed_def)
  from write_then_in_waiting [OF h, of world0] h show ?thesis
    by simp
qed

subsection \<open>Clearing the buffers\<close>

text \<open>
  Claim C9: on every open channel \<open>reset_input_buffer()\<close> and \<open>reset_output_buffer()\<close> do the
  same: each empties the one queue, so the channel's state after the one is its state
  after the other. Both return \<open>None\<close> and leave the same object, whose queue is empty; what
  differs is the name under which the call is reported to the logger, if there is one.
\<close>

theorem reset_buffers_agree:
  assumes "isOpen s" and "queue s = Some q"
  shows "reset_input_buffer s w =
           (Return (), s\<lparr>queue := Some (q\<lparr>items := []\<rparr>)\<rparr>, logger_info ''flushInput()'' s w) \<and>
         reset_output_buffer s w =
           (Return (), s\<lparr>queue := Some (q\<lparr>items := []\<rparr>)\<rparr>, logger_info ''flushOutput()'' s w) \<and>
         fst (reset_input_buffer s w) = fst (reset_output_buffer s w) \<and>
         fst (snd (reset_input_buffer s w)) = fst (snd (reset_output_buffer s w))"
  using assms
  by (simp add: reset_input_buffer_def reset_output_buffer_def drain_empties)

theorem reset_buffers_agree_witness:
  "isOpen Serial_logging \<and>
   queue Serial_logging = Some \<lparr>maxsize = 4096, items = [Some 104, Some 105]\<rparr> \<and>
   reset_input_buffer Serial_logging world0 =
     (Return (), Serial_logging\<lparr>queue := Some \<lparr>maxsize = 4096, items = []\<rparr>\<rparr>,
      world0\<lparr>trace := [LogInfo ''flushInput()'']\<rparr>) \<and>
   reset_output_buffer Serial_logging world0 =
     (Return (), Serial_logging\<lparr>queue := Some \<lparr>maxsize = 4096, items = []\<rparr>\<rparr>,
      world0\<lparr>trace := [LogInfo ''flushOutput()'']\<rparr>)"
proof -
  let ?q = "\<lparr>maxsize = 4096, items = [Some 104, Some 105]\<rparr>"
  have h: "isOpen Serial_logging" "queue Serial_logging = Some ?q"
    by (simp_all add: Serial_logging_def Serial_open_def Serial_closed_def)
  from reset_buffers_agree [OF h, of world0] h show ?thesis
    by (simp add: logger_info_def emit_def world0_def Serial_logging_def)
qed

subsection \<open>A failed \<open>open()\<close>\<close>

text \<open>
  Claim C10: \<open>open()\<close> on a closed channel that has no port fails with the
  port-not-configured error only after it has set the logger to \<open>None\<close> and replaced the
  queue by a new empty one of \<open>buffer_size\<close> elements: what an earlier session left in the
  queue is gone although \<open>open()\<close> failed.
\<close>

theorem open_without_port_resets:
  assumes "\<not> isOpen s" and "port s = None"
  shows "open U s w =
           (Raise (SerialException Port_must_be_configured),
            s\<lparr>logger := None, queue := Some \<lparr>maxsize = buffer_size s, items = []\<rparr>\<rparr>, w)"
  using assms by (simp add: open_def Queue_new_def)

theorem open_without_port_resets_witness:
  "\<not> isOpen Serial_used \<and> port Serial_used = None \<and>
   logger Serial_used = Some ''pySerial.loop'' \<and>
   queue Serial_used = Some \<lparr>maxsize = 4096, items = [Some 104, Some 105]\<rparr> \<and>
   fst (open urlparse_table Serial_used world0) = Raise (SerialException Port_must_be_configured) \<and>
   logger (fst (snd (open urlparse_table Serial_used world0))) = None \<and>
   queue (fst (snd (open urlparse_table Serial_used world0))) = Some \<lparr>maxsize = 4096, items = []\<rparr>"
proof -
  have h: "\<not> isOpen Serial_used" "port Serial_used = None"
    by (simp_all add: Serial_used_def Serial_closed_def)
  from open_without_port_resets [OF h, of urlparse_table world0] h show ?thesis
    by (simp add: Serial_used_def Serial_closed_def)
qed

end
